theory Spec2Isabelle
  imports Main
begin

section \<open>JavaScript strings\<close>

text \<open>
  A JavaScript string is a sequence of UTF-16 code units; a code unit is modelled as a
  natural number (below 65536 in every string the program builds). String literals of
  the source are ASCII and are written with \<open>lit\<close>.
\<close>

type_synonym jstring = "nat list"

definition lit :: "string \<Rightarrow> jstring" where
  "lit s = map of_char s"

text \<open>
  \<^verbatim>\<open>String.prototype.trim\<close> removes the code units that ECMAScript calls WhiteSpace or
  LineTerminator from both ends: TAB, LF, VT, FF, CR, SPACE, NBSP, U+1680,
  U+2000..U+200A, U+2028, U+2029, U+202F, U+205F, U+3000 and U+FEFF.
\<close>

definition isWhiteSpace :: "nat \<Rightarrow> bool" where
  "isWhiteSpace u \<longleftrightarrow>
     (9 \<le> u \<and> u \<le> 13) \<or> u = 32 \<or> u = 160 \<or> u = 5760 \<or> (8192 \<le> u \<and> u \<le> 8202) \<or>
     u = 8232 \<or> u = 8233 \<or> u = 8239 \<or> u = 8287 \<or> u = 12288 \<or> u = 65279"

definition trim :: "jstring \<Rightarrow> jstring" where
  "trim s = rev (dropWhile isWhiteSpace (rev (dropWhile isWhiteSpace s)))"

text \<open>\<^verbatim>\<open>s.replace(/=+$/, '')\<close>: the run of \<open>=\<close> (code unit 61) at the end is removed.\<close>

definition strip_padding :: "jstring \<Rightarrow> jstring" where
  "strip_padding s = rev (dropWhile (\<lambda>u. u = 61) (rev s))"

text \<open>\<^verbatim>\<open>String.prototype.includes\<close>: \<open>includes_str s t\<close> holds when \<open>t\<close> occurs in \<open>s\<close>.\<close>

fun starts_with :: "jstring \<Rightarrow> jstring \<Rightarrow> bool" where
  "starts_with s [] = True"
| "starts_with [] (y # t) = False"
| "starts_with (x # s) (y # t) = (x = y \<and> starts_with s t)"

fun includes_str :: "jstring \<Rightarrow> jstring \<Rightarrow> bool" where
  "includes_str [] t = (t = [])"
| "includes_str (x # s) t = (starts_with (x # s) t \<or> includes_str s t)"

section \<open>Buffer: base64 and UTF-8\<close>

text \<open>
  The helpers of \<^verbatim>\<open>server.js\<close> go through Node's \<^verbatim>\<open>Buffer\<close>. A buffer is a list of
  bytes (natural numbers below 256).

  \<^verbatim>\<open>buf.toString('base64')\<close>: three bytes give four digits of six bits each, written in
  the alphabet \<open>A-Z a-z 0-9 + /\<close>; a last group of one or two bytes is padded with
  \<open>=\<close>.
\<close>

definition b64_char :: "nat \<Rightarrow> nat" where
  "b64_char d =
     (if d < 26 then 65 + d
      else if d < 52 then 97 + (d - 26)
      else if d < 62 then 48 + (d - 52)
      else if d = 62 then 43
      else 47)"

fun sextets :: "nat list \<Rightarrow> nat list" where
  "sextets (a # b # c # bs) =
     [a div 4, (a mod 4) * 16 + b div 16, (b mod 16) * 4 + c div 64, c mod 64] @ sextets bs"
| "sextets [a, b] = [a div 4, (a mod 4) * 16 + b div 16, (b mod 16) * 4]"
| "sextets [a] = [a div 4, (a mod 4) * 16]"
| "sextets [] = []"

definition toString_base64 :: "nat list \<Rightarrow> jstring" where
  "toString_base64 bs =
     map b64_char (sextets bs) @ replicate ((3 - length bs mod 3) mod 3) 61"

text \<open>
  \<^verbatim>\<open>Buffer.from(s, 'base64')\<close> reads every UTF-16 code unit of the string by its low
  byte (the code unit modulo 256). A byte outside the alphabet (white space among them)
  is skipped, decoding stops at the first byte \<open>=\<close>, the URL-safe digits \<open>-\<close> and
  \<open>_\<close> are accepted, and the digits are packed into bytes; bits left over at the end
  are dropped. So U+0141 is read as \<open>A\<close>, U+202F as \<open>/\<close> and U+205F as \<open>_\<close>.
\<close>

definition unbase64 :: "nat \<Rightarrow> nat option" where
  "unbase64 u =
     (let c = u mod 256 in
      if 65 \<le> c \<and> c \<le> 90 then Some (c - 65)
      else if 97 \<le> c \<and> c \<le> 122 then Some (c - 71)
      else if 48 \<le> c \<and> c \<le> 57 then Some (c + 4)
      else if c = 43 \<or> c = 45 then Some 62
      else if c = 47 \<or> c = 95 then Some 63
      else None)"

fun pack :: "nat list \<Rightarrow> nat list" where
  "pack (a # b # c # d # ds) =
     [a * 4 + b div 16, (b mod 16) * 16 + c div 4, (c mod 4) * 64 + d] @ pack ds"
| "pack [a, b, c] = [a * 4 + b div 16, (b mod 16) * 16 + c div 4]"
| "pack [a, b] = [a * 4 + b div 16]"
| "pack [a] = []"
| "pack [] = []"

definition from_base64 :: "jstring \<Rightarrow> nat list" where
  "from_base64 s = pack (List.map_filter unbase64 (takeWhile (\<lambda>u. u mod 256 \<noteq> 61) s))"

text \<open>
  \<^verbatim>\<open>buf.toString('utf8')\<close> decodes as the WHATWG UTF-8 decoder does: a byte that cannot
  start or continue a well-formed sequence ends the sequence read so far, which becomes
  one U+FFFD (65533), and is read again as a first byte. The code points are then
  written as UTF-16 code units, a code point from U+10000 on as a surrogate pair.
\<close>

definition is_cont :: "nat \<Rightarrow> bool" where
  "is_cont c \<longleftrightarrow> 128 \<le> c \<and> c \<le> 191"

fun utf8_decode :: "nat list \<Rightarrow> nat list" where
  "utf8_decode [] = []"
| "utf8_decode (b # bs) =
     (if b < 128 then b # utf8_decode bs
      else if 194 \<le> b \<and> b \<le> 223 then
        (case bs of
           [] \<Rightarrow> [65533]
         | c # r \<Rightarrow>
             if is_cont c then ((b - 192) * 64 + (c - 128)) # utf8_decode r
             else 65533 # utf8_decode bs)
      else if 224 \<le> b \<and> b \<le> 239 then
        (case bs of
           [] \<Rightarrow> [65533]
         | c # r \<Rightarrow>
             if (if b = 224 then 160 else 128) \<le> c \<and> c \<le> (if b = 237 then 159 else 191) then
               (case r of
                  [] \<Rightarrow> [65533]
                | d # r' \<Rightarrow>
                    if is_cont d then
                      ((b - 224) * 4096 + (c - 128) * 64 + (d - 128)) # utf8_decode r'
                    else 65533 # utf8_decode r)
             else 65533 # utf8_decode bs)
      else if 240 \<le> b \<and> b \<le> 244 then
        (case bs of
           [] \<Rightarrow> [65533]
         | c # r \<Rightarrow>
             if (if b = 240 then 144 else 128) \<le> c \<and> c \<le> (if b = 244 then 143 else 191) then
               (case r of
                  [] \<Rightarrow> [65533]
                | d # r' \<Rightarrow>
                    if is_cont d then
                      (case r' of
                         [] \<Rightarrow> [65533]
                       | e # r'' \<Rightarrow>
                           if is_cont e then
                             ((b - 240) * 262144 + (c - 128) * 4096 + (d - 128) * 64 + (e - 128))
                               # utf8_decode r''
                           else 65533 # utf8_decode r')
                    else 65533 # utf8_decode r)
             else 65533 # utf8_decode bs)
      else 65533 # utf8_decode bs)"

definition utf16_units :: "nat \<Rightarrow> jstring" where
  "utf16_units cp =
     (if cp < 65536 then [cp]
      else [55296 + (cp - 65536) div 1024, 56320 + (cp - 65536) mod 1024])"

definition toString_utf8 :: "nat list \<Rightarrow> jstring" where
  "toString_utf8 bs = concat (map utf16_units (utf8_decode bs))"

text \<open>
  \<^verbatim>\<open>Buffer.from(s, 'utf8')\<close>: the UTF-8 bytes of the string. A surrogate pair is one
  code point of four bytes; a surrogate without its partner is written as U+FFFD
  (bytes EF BF BD).
\<close>

definition utf8_bytes :: "nat \<Rightarrow> nat list" where
  "utf8_bytes cp =
     (if cp < 128 then [cp]
      else if cp < 2048 then [192 + cp div 64, 128 + cp mod 64]
      else if cp < 65536 then [224 + cp div 4096, 128 + cp div 64 mod 64, 128 + cp mod 64]
      else [240 + cp div 262144, 128 + cp div 4096 mod 64, 128 + cp div 64 mod 64,
            128 + cp mod 64])"

fun from_utf8 :: "jstring \<Rightarrow> nat list" where
  "from_utf8 [] = []"
| "from_utf8 (u # us) =
     (if 55296 \<le> u \<and> u \<le> 56319 then
        (case us of
           [] \<Rightarrow> [239, 191, 189]
         | v # r \<Rightarrow>
             if 56320 \<le> v \<and> v \<le> 57343 then
               utf8_bytes (65536 + (u - 55296) * 1024 + (v - 56320)) @ from_utf8 r
             else [239, 191, 189] @ from_utf8 us)
      else if 56320 \<le> u \<and> u \<le> 57343 then [239, 191, 189] @ from_utf8 us
      else utf8_bytes u @ from_utf8 us)"

text \<open>
  Well-formed UTF-8 is the encoding of Unicode scalar values: code points up to
  U+10FFFF that are not surrogates (U+D800 to U+DFFF).
\<close>

definition is_scalar :: "nat \<Rightarrow> bool" where
  "is_scalar cp \<longleftrightarrow> cp < 1114112 \<and> \<not> (55296 \<le> cp \<and> cp \<le> 57343)"

section \<open>The output decoder\<close>

text \<open>
  \<^verbatim>\<open>isLikelyBase64\<close> (server.js, lines 44 to 58). The argument is \<open>None\<close> for \<^verbatim>\<open>null\<close>
  or \<^verbatim>\<open>undefined\<close>. The regular expression \<^verbatim>\<open>/^[A-Za-z0-9+/=\r\n]+$/\<close> has no flag, so
  it asks for a non-empty string made of the listed code units only. Neither
  \<^verbatim>\<open>Buffer.from\<close> nor \<^verbatim>\<open>toString\<close> throws on a string, so the \<^verbatim>\<open>catch\<close> has no branch.
\<close>

definition b64_regex_char :: "nat \<Rightarrow> bool" where
  "b64_regex_char u \<longleftrightarrow>
     (65 \<le> u \<and> u \<le> 90) \<or> (97 \<le> u \<and> u \<le> 122) \<or> (48 \<le> u \<and> u \<le> 57) \<or>
     u = 43 \<or> u = 47 \<or> u = 61 \<or> u = 13 \<or> u = 10"

definition b64_regex_test :: "jstring \<Rightarrow> bool" where
  "b64_regex_test s \<longleftrightarrow> s \<noteq> [] \<and> list_all b64_regex_char s"

definition isLikelyBase64 :: "jstring option \<Rightarrow> bool" where
  "isLikelyBase64 str =
     (case str of
        None \<Rightarrow> False
      | Some s \<Rightarrow>
          let maybe = trim s in
          if \<not> b64_regex_test maybe then False
          else
            let decoded = toString_utf8 (from_base64 maybe);
                reencoded = strip_padding (toString_base64 (from_utf8 decoded));
                normalized = strip_padding maybe
            in reencoded = normalized)"

text \<open>
  \<^verbatim>\<open>safeDecode\<close> (lines 60 to 72). A field of the judge's answer is a string, or is
  absent or \<^verbatim>\<open>null\<close> (\<open>None\<close>); on a string \<^verbatim>\<open>String(maybeB64)\<close> is the string itself.
\<close>

definition safeDecode :: "jstring option \<Rightarrow> jstring" where
  "safeDecode maybeB64 =
     (case maybeB64 of
        None \<Rightarrow> []
      | Some s \<Rightarrow> if isLikelyBase64 (Some s) then toString_utf8 (from_base64 s) else s)"

section \<open>The judge's answer and the output precedence\<close>

text \<open>
  The body of a poll answer, as far as the handler reads it: \<^verbatim>\<open>status\<close> (an object
  with \<^verbatim>\<open>id\<close> and \<^verbatim>\<open>description\<close>) and the three streams. Every field may be absent or
  \<^verbatim>\<open>null\<close>.
\<close>

record job_status =
  status_id :: "int option"
  description :: "jstring option"

record result_data =
  status :: "job_status option"
  compile_output :: "jstring option"
  stderr :: "jstring option"
  stdout :: "jstring option"

text \<open>
  Lines 240 to 251: the three fields are decoded one by one, and the first of compile
  output, stderr and stdout that is truthy and has a truthy \<^verbatim>\<open>trim()\<close> is the output.
  A string is truthy when it is not empty.
\<close>

definition display_output :: "result_data \<Rightarrow> jstring" where
  "display_output resultData =
     (let compileOutput = safeDecode (compile_output resultData);
          stderr' = safeDecode (stderr resultData);
          stdout' = safeDecode (stdout resultData)
      in if compileOutput \<noteq> [] \<and> trim compileOutput \<noteq> [] then compileOutput
         else if stderr' \<noteq> [] \<and> trim stderr' \<noteq> [] then stderr'
         else if stdout' \<noteq> [] \<and> trim stdout' \<noteq> [] then stdout'
         else lit ''No output'')"

section \<open>Language resolution\<close>

text \<open>
  \<^verbatim>\<open>DEFAULT_LANGUAGE_IDS\<close> (lines 75 to 81) is an object literal, and line 149 reads it
  with \<^verbatim>\<open>DEFAULT_LANGUAGE_IDS[language]\<close>. A property read on an object literal finds the
  object's own keys first and then the members every object inherits from
  \<^verbatim>\<open>Object.prototype\<close>, which are functions (or, for \<^verbatim>\<open>__proto__\<close>, the prototype
  itself). The value read is therefore a number, an inherited member, or \<^verbatim>\<open>undefined\<close>.
\<close>

datatype js_value = Undefined | Number int | Inherited

fun truthy :: "js_value \<Rightarrow> bool" where
  "truthy Undefined = False"
| "truthy (Number n) = (n \<noteq> 0)"
| "truthy Inherited = True"

definition DEFAULT_LANGUAGE_IDS :: "(jstring \<times> int) list" where
  "DEFAULT_LANGUAGE_IDS =
     [(lit ''python'', 71), (lit ''javascript'', 63), (lit ''java'', 62), (lit ''c'', 50),
      (lit ''c++'', 54)]"

definition object_prototype_keys :: "jstring list" where
  "object_prototype_keys =
     map lit [''constructor'', ''__defineGetter__'', ''__defineSetter__'', ''hasOwnProperty'',
       ''__lookupGetter__'', ''__lookupSetter__'', ''isPrototypeOf'', ''propertyIsEnumerable'',
       ''toString'', ''valueOf'', ''__proto__'', ''toLocaleString'']"

definition get_property :: "(jstring \<times> int) list \<Rightarrow> jstring \<Rightarrow> js_value" where
  "get_property obj key =
     (case map_of obj key of
        Some n \<Rightarrow> Number n
      | None \<Rightarrow> if key \<in> set object_prototype_keys then Inherited else Undefined)"

text \<open>
  What the handlers call upstream, in the order of the calls, and what an upstream call
  gives back: a rejected promise (with the details the \<^verbatim>\<open>catch\<close> reports) or the data
  of the answer.
\<close>

datatype upstream_call =
    GenerateContent jstring
  | GetLanguages
  | PostSubmission jstring js_value
  | GetSubmission jstring

datatype 'a http = Failed jstring | Response 'a

text \<open>
  A record of the language catalog. \<^verbatim>\<open>name\<close> and \<^verbatim>\<open>slug\<close> may be absent; the \<^verbatim>\<open>id\<close> is
  a number. The catalog's answer is an array of records or something else.
\<close>

record language_record =
  lang_id :: int
  lang_name :: "jstring option"
  lang_slug :: "jstring option"

datatype catalog = NotArray | Array "language_record list"

text \<open>
  The world of one \<^verbatim>\<open>/api/execute\<close> request: the answer to \<^verbatim>\<open>GET /languages\<close>, the
  answer to \<^verbatim>\<open>POST /submissions\<close> for a source and a language id (the \<^verbatim>\<open>token\<close> of its
  data, if any), the answer to the \<open>n\<close>-th \<^verbatim>\<open>GET /submissions/{token}\<close> (its data, \<open>None\<close>
  for an empty or \<^verbatim>\<open>null\<close> body), and the value of the \<open>n\<close>-th \<^verbatim>\<open>Date.now()\<close> of the
  handler. Nothing is assumed of the clock; the 800 ms pause between two polls shows
  in its readings only.
\<close>

record world =
  languages :: "catalog http"
  submissions_post :: "jstring \<Rightarrow> js_value \<Rightarrow> jstring option http"
  submissions_get :: "nat \<Rightarrow> result_data option http"
  now :: "nat \<Rightarrow> int"

definition or_empty :: "jstring option \<Rightarrow> jstring" where
  "or_empty x = (case x of None \<Rightarrow> [] | Some s \<Rightarrow> s)"

text \<open>
  Lines 149 to 179. \<^verbatim>\<open>toLowerCase\<close> follows the Unicode case tables, which are not part
  of the repository: it is a parameter. The result is the value of \<^verbatim>\<open>langId\<close> at line
  181 and the upstream calls made.
\<close>

definition matches :: "(jstring \<Rightarrow> jstring) \<Rightarrow> jstring \<Rightarrow> language_record \<Rightarrow> bool" where
  "matches toLowerCase language l =
     (let name = toLowerCase (or_empty (lang_name l));
          slug = toLowerCase (or_empty (lang_slug l))
      in includes_str name (toLowerCase language) \<or> includes_str slug (toLowerCase language))"

definition resolve_language ::
  "(jstring \<Rightarrow> jstring) \<Rightarrow> world \<Rightarrow> jstring \<Rightarrow> js_value \<times> upstream_call list" where
  "resolve_language toLowerCase w language =
     (let langId = get_property DEFAULT_LANGUAGE_IDS language in
      if \<not> truthy langId then
        (case languages w of
           Failed err \<Rightarrow> (langId, [GetLanguages])
         | Response NotArray \<Rightarrow> (langId, [GetLanguages])
         | Response (Array ls) \<Rightarrow>
             (case List.find (matches toLowerCase language) ls of
                None \<Rightarrow> (langId, [GetLanguages])
              | Some found \<Rightarrow> (Number (lang_id found), [GetLanguages])))
      else (langId, []))"

section \<open>The poll loop\<close>

definition pollIntervalMs :: int where
  "pollIntervalMs = 800"

definition timeoutMs :: int where
  "timeoutMs = 20000"

text \<open>Line 226: \<^verbatim>\<open>resultData?.status?.id ?? 0\<close>.\<close>

definition statusId_of :: "result_data option \<Rightarrow> int" where
  "statusId_of resultData =
     (case resultData of
        None \<Rightarrow> 0
      | Some r \<Rightarrow>
          (case status r of
             None \<Rightarrow> 0
           | Some st \<Rightarrow> (case status_id st of None \<Rightarrow> 0 | Some i \<Rightarrow> i)))"

text \<open>Line 244: \<^verbatim>\<open>resultData?.status?.description ?? 'Unknown'\<close>.\<close>

definition statusDesc_of :: "result_data \<Rightarrow> jstring" where
  "statusDesc_of r =
     (case status r of
        None \<Rightarrow> lit ''Unknown''
      | Some st \<Rightarrow> (case description st of None \<Rightarrow> lit ''Unknown'' | Some d \<Rightarrow> d))"

text \<open>
  Lines 213 to 229. \<open>n\<close> polls have been made and \<open>resultData\<close> is the data of the last
  one (\<open>None\<close> before the first). The test of the \<^verbatim>\<open>while\<close> reads the clock for the
  \<open>Suc n\<close>-th time (reading 0 is \<^verbatim>\<open>startAt\<close>). The loop ends on a rejected request, on a
  status above 2, or when the time is up; it gives the number of polls made and either
  the details of the rejection or the last data. A loop that never ends is \<open>None\<close>.
\<close>

partial_function (option) poll_loop ::
  "world \<Rightarrow> int \<Rightarrow> nat \<Rightarrow> result_data option \<Rightarrow> (nat \<times> (jstring + result_data option)) option"
  where
  "poll_loop w startAt n resultData =
     (if now w (Suc n) - startAt < timeoutMs then
        (case submissions_get w n of
           Failed err \<Rightarrow> Some (Suc n, Inl err)
         | Response d \<Rightarrow>
             if statusId_of d > 2 then Some (Suc n, Inr d)
             else poll_loop w startAt (Suc n) d)
      else Some (n, Inr resultData))"

declare poll_loop.simps [code]

section \<open>The handlers\<close>

record request_body =
  code :: "jstring option"
  language :: "jstring option"

text \<open>
  The JSON of an answer: \<^verbatim>\<open>{error}\<close>, \<^verbatim>\<open>{error, raw}\<close>, \<^verbatim>\<open>{error, details}\<close>,
  \<^verbatim>\<open>{explanation}\<close>, \<^verbatim>\<open>{improvedCode}\<close> and \<^verbatim>\<open>{output, status, token, raw}\<close>. A response is
  the HTTP status with the JSON.
\<close>

datatype payload =
    Error jstring
  | ErrorRaw jstring "jstring option"
  | ErrorDetails jstring jstring
  | Explanation jstring
  | ImprovedCode jstring
  | Execution jstring jstring jstring result_data

type_synonym response = "nat \<times> payload"

text \<open>
  Lines 231 to 264, once the loop has ended after the submission \<open>calls\<close>: a rejected
  poll is caught at line 260, empty data is the error of line 233, and any other data
  is decoded and reported.
\<close>

definition respond ::
  "jstring \<Rightarrow> upstream_call list \<Rightarrow> nat \<times> (jstring + result_data option) \<Rightarrow>
     response \<times> upstream_call list" where
  "respond token calls ended =
     (case ended of (n, outcome) \<Rightarrow>
        ((case outcome of
            Inl details \<Rightarrow> (500, ErrorDetails (lit ''Execution failed'') details)
          | Inr None \<Rightarrow> (500, Error (lit ''No result received from Judge0''))
          | Inr (Some resultData) \<Rightarrow>
              (200, Execution (display_output resultData) (statusDesc_of resultData) token
                      resultData)),
         calls @ replicate n (GetSubmission token)))"

text \<open>
  \<^verbatim>\<open>app.post('/api/execute')\<close>, lines 141 to 265. \<^verbatim>\<open>code\<close> and \<^verbatim>\<open>language\<close> are strings
  or missing; a missing or empty one is falsy.
\<close>

definition execute ::
  "(jstring \<Rightarrow> jstring) \<Rightarrow> world \<Rightarrow> request_body \<Rightarrow> (response \<times> upstream_call list) option"
  where
  "execute toLowerCase w body =
     (if or_empty (code body) = [] \<or> or_empty (language body) = [] then
        Some ((400, Error (lit ''Code and language required'')), [])
      else
        let code' = or_empty (code body); language' = or_empty (language body) in
        (case resolve_language toLowerCase w language' of (langId, calls) \<Rightarrow>
           if \<not> truthy langId then
             Some ((400, Error (lit ''Unsupported language: '' @ language')), calls)
           else
             (case submissions_post w code' langId of
                Failed details \<Rightarrow>
                  Some ((500, ErrorDetails (lit ''Execution failed'') details),
                        calls @ [PostSubmission code' langId])
              | Response token \<Rightarrow>
                  if or_empty token = [] then
                    Some ((500, ErrorRaw (lit ''Judge0 did not return a token'') token),
                          calls @ [PostSubmission code' langId])
                  else
                    map_option
                      (respond (or_empty token) (calls @ [PostSubmission code' langId]))
                      (poll_loop w (now w 0) 0 None))))"

text \<open>
  \<^verbatim>\<open>app.post('/api/explain')\<close> and \<^verbatim>\<open>app.post('/api/improve')\<close>, lines 87 to 138. The model
  answers a prompt with a text (\<open>None\<close> when \<^verbatim>\<open>response.text?.()\<close> is \<^verbatim>\<open>undefined\<close> or
  \<^verbatim>\<open>null\<close>) or the call fails. Code unit 10 is the line feed, 34 the double quote.
\<close>

definition explain_prompt :: "jstring \<Rightarrow> jstring \<Rightarrow> jstring" where
  "explain_prompt code' language' =
     lit ''Explain the following '' @ language' @ lit '' code in simple terms:'' @ [10] @
     lit ''1. Break down key components'' @ [10] @
     lit ''2. Describe control flow'' @ [10] @
     lit ''3. Highlight important variables/functions'' @ [10] @
     lit ''4. Use bullet points for clarity'' @ [10, 10] @
     lit ''Return ONLY the explanation, no code formatting.'' @ [10, 10] @
     lit ''Code:'' @ [10] @ code'"

definition improve_prompt :: "jstring \<Rightarrow> jstring \<Rightarrow> jstring" where
  "improve_prompt code' language' =
     lit ''Analyze this '' @ language' @
     lit '' code and return ONLY the improved version:'' @ [10] @
     lit ''- If the code is already optimal, return '' @ [34] @
     lit ''No correction required'' @ [34, 10] @
     lit ''- Do not include any explanations or comments'' @ [10] @
     lit ''- Keep the exact same functionality'' @ [10] @
     lit ''- Only return the raw code'' @ [10, 10] @
     lit ''Code:'' @ [10] @ code'"

definition explain ::
  "(jstring \<Rightarrow> jstring option http) \<Rightarrow> request_body \<Rightarrow> response \<times> upstream_call list" where
  "explain generateContent body =
     (if or_empty (code body) = [] \<or> or_empty (language body) = [] then
        ((400, Error (lit ''Code and language required'')), [])
      else
        let prompt = explain_prompt (or_empty (code body)) (or_empty (language body)) in
        (case generateContent prompt of
           Failed err \<Rightarrow>
             ((500, Error (lit ''Failed to generate explanation'')), [GenerateContent prompt])
         | Response t \<Rightarrow>
             let text = or_empty t in
             ((200, Explanation (if text \<noteq> [] then text else lit ''No explanation generated'')),
              [GenerateContent prompt])))"

definition improve ::
  "(jstring \<Rightarrow> jstring option http) \<Rightarrow> request_body \<Rightarrow> response \<times> upstream_call list" where
  "improve generateContent body =
     (if or_empty (code body) = [] \<or> or_empty (language body) = [] then
        ((400, Error (lit ''Code and language required'')), [])
      else
        let prompt = improve_prompt (or_empty (code body)) (or_empty (language body)) in
        (case generateContent prompt of
           Failed err \<Rightarrow>
             ((500, Error (lit ''Failed to generate improvements'')), [GenerateContent prompt])
         | Response t \<Rightarrow>
             let improvedCode = or_empty t in
             ((200, ImprovedCode
                 (if includes_str improvedCode (lit ''No correction required'') then
                    lit ''No correction required''
                  else if trim improvedCode \<noteq> [] then trim improvedCode
                  else lit ''No correction generated'')),
              [GenerateContent prompt])))"

section \<open>Sample inputs\<close>

text \<open>
  Concrete inputs on which the theorems below are run: a \<^verbatim>\<open>toLowerCase\<close> for ASCII
  text, three answers of the judge (queued, finished with the base64 of \<open>1\<close> and a line
  feed on stdout, and an answer without a status), and a world whose clock advances by
  \<open>step\<close> milliseconds from one reading to the next, with an empty catalog and a
  submission that is always given the token \<open>tok\<close>.
\<close>

definition ascii_lower :: "jstring \<Rightarrow> jstring" where
  "ascii_lower s = map (\<lambda>u. if 65 \<le> u \<and> u \<le> 90 then u + 32 else u) s"

definition queued :: result_data where
  "queued =
     \<lparr>status = Some \<lparr>status_id = Some 1, description = Some (lit ''In Queue'')\<rparr>,
      compile_output = None, stderr = None, stdout = None\<rparr>"

definition accepted :: result_data where
  "accepted =
     \<lparr>status = Some \<lparr>status_id = Some 3, description = Some (lit ''Accepted'')\<rparr>,
      compile_output = None, stderr = None, stdout = Some (lit ''MQo='')\<rparr>"

definition statusless :: result_data where
  "statusless = \<lparr>status = None, compile_output = None, stderr = None, stdout = None\<rparr>"

definition sample_world :: "int \<Rightarrow> (nat \<Rightarrow> result_data option http) \<Rightarrow> world" where
  "sample_world step answers =
     \<lparr>languages = Response (Array []),
      submissions_post = (\<lambda>c v. Response (Some (lit ''tok''))),
      submissions_get = answers,
      now = (\<lambda>n. step * int n)\<rparr>"

definition sample_request :: "string \<Rightarrow> request_body" where
  "sample_request l = \<lparr>code = Some (lit ''print(1)''), language = Some (lit l)\<rparr>"

section \<open>Facts about strings\<close>

lemma dropWhile_keeps: "x \<in> set s \<Longrightarrow> \<not> P x \<Longrightarrow> x \<in> set (dropWhile P s)"
  by (induction s) auto

lemma trim_keeps: "u \<in> set s \<Longrightarrow> \<not> isWhiteSpace u \<Longrightarrow> u \<in> set (trim s)"
  by (simp add: trim_def dropWhile_keeps)

lemma trim_Nil [simp]: "trim [] = []"
  by (simp add: trim_def)

lemma safeDecode_not_base64: "\<not> b64_regex_test (trim s) \<Longrightarrow> safeDecode (Some s) = s"
  by (simp add: safeDecode_def isLikelyBase64_def)

section \<open>Facts about base64\<close>

lemma b64_char_bound: "b64_char d < 123"
  by (auto simp: b64_char_def)

lemma b64_char_low: "b64_char d mod 256 = b64_char d"
  using b64_char_bound [of d] by simp

lemma unbase64_low: "c < 256 \<Longrightarrow> unbase64 c =
     (if 65 \<le> c \<and> c \<le> 90 then Some (c - 65)
      else if 97 \<le> c \<and> c \<le> 122 then Some (c - 71)
      else if 48 \<le> c \<and> c \<le> 57 then Some (c + 4)
      else if c = 43 \<or> c = 45 then Some 62
      else if c = 47 \<or> c = 95 then Some 63
      else None)"
  by (simp add: unbase64_def)

lemma unbase64_b64_char: "d < 64 \<Longrightarrow> unbase64 (b64_char d) = Some d"
proof -
  assume d: "d < 64"
  have "b64_char d < 256"
    using b64_char_bound [of d] by simp
  then show ?thesis
    using d by (subst unbase64_low) (auto simp: b64_char_def)
qed

lemma b64_char_not_pad: "b64_char d mod 256 \<noteq> 61"
  unfolding b64_char_low by (auto simp: b64_char_def)

lemma b64_char_regex: "b64_regex_char (b64_char d)"
  by (auto simp: b64_char_def b64_regex_char_def)

lemma b64_char_not_space: "\<not> isWhiteSpace (b64_char d)"
  by (auto simp: b64_char_def isWhiteSpace_def)

lemma sextets_bound: "\<forall>b\<in>set bs. b < 256 \<Longrightarrow> \<forall>d\<in>set (sextets bs). d < 64"
  by (induction bs rule: sextets.induct) auto

lemma pack_sextets: "\<forall>b\<in>set bs. b < 256 \<Longrightarrow> pack (sextets bs) = bs"
  by (induction bs rule: sextets.induct) auto

lemma sextets_Nil_iff: "sextets bs = [] \<longleftrightarrow> bs = []"
  by (induction bs rule: sextets.induct) auto

lemma map_filter_unbase64:
  "\<forall>d\<in>set ds. d < 64 \<Longrightarrow> List.map_filter unbase64 (map b64_char ds) = ds"
  by (induction ds) (simp_all add: List.map_filter_simps unbase64_b64_char)

lemma takeWhile_digits:
  "takeWhile (\<lambda>u. u mod 256 \<noteq> 61) (map b64_char ds @ replicate k 61) = map b64_char ds"
  by (induction ds) (auto simp: b64_char_not_pad takeWhile_replicate)

lemma from_base64_toString_base64:
  assumes "\<forall>b\<in>set bs. b < 256"
  shows "from_base64 (toString_base64 bs) = bs"
  using assms
  by (simp add: from_base64_def toString_base64_def takeWhile_digits map_filter_unbase64
      sextets_bound pack_sextets)

lemma trim_no_space: "\<forall>u\<in>set s. \<not> isWhiteSpace u \<Longrightarrow> trim s = s"
proof -
  assume a: "\<forall>u\<in>set s. \<not> isWhiteSpace u"
  then have "dropWhile isWhiteSpace s = s"
    by (cases s) auto
  moreover from a have "dropWhile isWhiteSpace (rev s) = rev s"
    by (cases "rev s") (auto simp: in_set_conv_decomp dest: arg_cong [where f = set])
  ultimately show ?thesis by (simp add: trim_def)
qed

lemma toString_base64_chars:
  "u \<in> set (toString_base64 bs) \<Longrightarrow> b64_regex_char u \<and> \<not> isWhiteSpace u"
  by (auto simp: toString_base64_def b64_char_regex b64_char_not_space)
     (simp_all add: b64_regex_char_def isWhiteSpace_def split: if_splits)

lemma toString_base64_Nil_iff: "toString_base64 bs = [] \<longleftrightarrow> bs = []"
  by (auto simp: toString_base64_def sextets_Nil_iff)

section \<open>Facts about UTF-8\<close>

lemma div_4096: "(c::nat) div 4096 = c div 64 div 64"
  by (simp add: div_mult2_eq [symmetric])

lemma div_262144: "(c::nat) div 262144 = c div 64 div 64 div 64"
  by (simp add: div_mult2_eq [symmetric])

lemma split3: "(c::nat) = c div 4096 * 4096 + c div 64 mod 64 * 64 + c mod 64"
proof -
  define q a b lo where "q = c div 64" and "a = q div 64" and "b = q mod 64" and "lo = c mod 64"
  have q: "q = a * 64 + b" by (simp add: a_def b_def)
  have "c = q * 64 + lo" by (simp add: q_def lo_def)
  with q have "c = (a * 64 + b) * 64 + lo" by simp
  then have "c = a * 4096 + b * 64 + lo" by (simp add: algebra_simps)
  then show ?thesis
    by (simp add: div_4096 a_def b_def lo_def q_def)
qed

lemma split4:
  "(c::nat) = c div 262144 * 262144 + c div 4096 mod 64 * 4096 + c div 64 mod 64 * 64 + c mod 64"
proof -
  define q p a b d lo where "q = c div 64" and "p = q div 64" and "a = p div 64"
    and "b = p mod 64" and "d = q mod 64" and "lo = c mod 64"
  have p: "p = a * 64 + b" by (simp add: a_def b_def)
  have q: "q = p * 64 + d" by (simp add: p_def d_def)
  have "c = q * 64 + lo" by (simp add: q_def lo_def)
  with q p have "c = ((a * 64 + b) * 64 + d) * 64 + lo" by simp
  then have "c = a * 262144 + b * 4096 + d * 64 + lo" by (simp add: algebra_simps)
  then show ?thesis
    by (simp add: div_4096 div_262144 a_def b_def d_def lo_def q_def p_def)
qed

lemma utf8_decode_1:
  "b < 128 \<Longrightarrow> utf8_decode (b # bs) = b # utf8_decode bs"
  by simp

lemma utf8_decode_2:
  "194 \<le> b \<Longrightarrow> b \<le> 223 \<Longrightarrow> is_cont x \<Longrightarrow>
     utf8_decode (b # x # bs) = ((b - 192) * 64 + (x - 128)) # utf8_decode bs"
  by simp

lemma utf8_decode_3:
  assumes "224 \<le> b" "b \<le> 239" "b = 224 \<longrightarrow> 160 \<le> x" "b = 237 \<longrightarrow> x \<le> 159"
    "is_cont x" "is_cont y"
  shows "utf8_decode (b # x # y # bs) =
       ((b - 224) * 4096 + (x - 128) * 64 + (y - 128)) # utf8_decode bs"
proof -
  from assms have "(if b = 224 then 160 else 128) \<le> x \<and> x \<le> (if b = 237 then 159 else 191)"
    by (auto simp: is_cont_def)
  moreover from assms have "\<not> b < 128" "\<not> (194 \<le> b \<and> b \<le> 223)" "224 \<le> b \<and> b \<le> 239"
    by simp_all
  ultimately show ?thesis
    using assms(6) by (subst utf8_decode.simps) (simp only: if_True if_False list.case simp_thms)
qed

lemma utf8_decode_4:
  assumes "240 \<le> b" "b \<le> 244" "b = 240 \<longrightarrow> 144 \<le> x" "b = 244 \<longrightarrow> x \<le> 143"
    "is_cont x" "is_cont y" "is_cont z"
  shows "utf8_decode (b # x # y # z # bs) =
       ((b - 240) * 262144 + (x - 128) * 4096 + (y - 128) * 64 + (z - 128)) # utf8_decode bs"
proof -
  from assms have "(if b = 240 then 144 else 128) \<le> x \<and> x \<le> (if b = 244 then 143 else 191)"
    by (auto simp: is_cont_def)
  moreover from assms have "\<not> b < 128" "\<not> (194 \<le> b \<and> b \<le> 223)" "\<not> (224 \<le> b \<and> b \<le> 239)"
      "240 \<le> b \<and> b \<le> 244"
    by simp_all
  ultimately show ?thesis
    using assms(6,7)
    by (subst utf8_decode.simps) (simp only: if_True if_False list.case simp_thms)
qed

lemma utf8_decode_bytes:
  assumes "is_scalar c"
  shows "utf8_decode (utf8_bytes c @ bs) = c # utf8_decode bs"
proof -
  consider "c < 128" | "128 \<le> c" "c < 2048" | "2048 \<le> c" "c < 65536" | "65536 \<le> c"
    by linarith
  then show ?thesis
  proof cases
    case 1
    then have "utf8_bytes c = [c]" by (simp add: utf8_bytes_def)
    with 1 show ?thesis by (simp add: utf8_decode_1 del: utf8_decode.simps)
  next
    case 2
    define hi lo where "hi = c div 64" and "lo = c mod 64"
    have c: "c = hi * 64 + lo" and lo: "lo < 64"
      by (simp_all add: hi_def lo_def)
    from 2 c lo have hi: "2 \<le> hi" "hi \<le> 31" by linarith+
    from 2 have "utf8_bytes c = [192 + hi, 128 + lo]"
      by (simp add: utf8_bytes_def hi_def lo_def)
    then have "utf8_decode (utf8_bytes c @ bs) = utf8_decode ((192 + hi) # (128 + lo) # bs)"
      by (simp del: utf8_decode.simps)
    also have "\<dots> = ((192 + hi - 192) * 64 + (128 + lo - 128)) # utf8_decode bs"
      using hi lo by (intro utf8_decode_2) (simp_all add: is_cont_def)
    also have "(192 + hi - 192) * 64 + (128 + lo - 128) = c"
      using c by simp
    finally show ?thesis .
  next
    case 3
    define a b lo where "a = c div 4096" and "b = c div 64 mod 64" and "lo = c mod 64"
    have lo: "lo < 64" and b: "b < 64"
      by (simp_all add: b_def lo_def)
    have c: "c = a * 4096 + b * 64 + lo"
      unfolding a_def b_def lo_def by (rule split3)
    from assms have "c < 55296 \<or> 57343 < c" unfolding is_scalar_def by linarith
    with 3 c lo b have a: "a \<le> 15" "a = 0 \<longrightarrow> 32 \<le> b" "a = 13 \<longrightarrow> b < 32"
      by linarith+
    from 3 have "utf8_bytes c = [224 + a, 128 + b, 128 + lo]"
      by (simp add: utf8_bytes_def a_def b_def lo_def)
    then have "utf8_decode (utf8_bytes c @ bs) =
        utf8_decode ((224 + a) # (128 + b) # (128 + lo) # bs)"
      by (simp del: utf8_decode.simps)
    also have "\<dots> =
        ((224 + a - 224) * 4096 + (128 + b - 128) * 64 + (128 + lo - 128)) # utf8_decode bs"
      using a b lo by (intro utf8_decode_3) (auto simp: is_cont_def)
    also have "(224 + a - 224) * 4096 + (128 + b - 128) * 64 + (128 + lo - 128) = c"
      using c by simp
    finally show ?thesis .
  next
    case 4
    define a b d lo where "a = c div 262144" and "b = c div 4096 mod 64"
      and "d = c div 64 mod 64" and "lo = c mod 64"
    have lo: "lo < 64" and b: "b < 64" and d: "d < 64"
      by (simp_all add: b_def d_def lo_def)
    have c: "c = a * 262144 + b * 4096 + d * 64 + lo"
      unfolding a_def b_def d_def lo_def by (rule split4)
    from assms have "c < 1114112" by (simp add: is_scalar_def)
    with 4 c lo b d have a: "a \<le> 4" "a = 0 \<longrightarrow> 16 \<le> b" "a = 4 \<longrightarrow> b < 16"
      by linarith+
    from 4 have "utf8_bytes c = [240 + a, 128 + b, 128 + d, 128 + lo]"
      by (simp add: utf8_bytes_def a_def b_def d_def lo_def)
    then have "utf8_decode (utf8_bytes c @ bs) =
        utf8_decode ((240 + a) # (128 + b) # (128 + d) # (128 + lo) # bs)"
      by (simp del: utf8_decode.simps)
    also have "\<dots> =
        ((240 + a - 240) * 262144 + (128 + b - 128) * 4096 + (128 + d - 128) * 64 +
         (128 + lo - 128)) # utf8_decode bs"
      using a b d lo by (intro utf8_decode_4) (auto simp: is_cont_def)
    also have "(240 + a - 240) * 262144 + (128 + b - 128) * 4096 + (128 + d - 128) * 64 +
         (128 + lo - 128) = c"
      using c by simp
    finally show ?thesis .
  qed
qed

lemma from_utf8_single:
  assumes "\<not> (55296 \<le> u \<and> u \<le> 57343)"
  shows "from_utf8 (u # us) = utf8_bytes u @ from_utf8 us"
proof -
  from assms have "\<not> (55296 \<le> u \<and> u \<le> 56319)" and "\<not> (56320 \<le> u \<and> u \<le> 57343)"
    by linarith+
  then show ?thesis
    by (subst from_utf8.simps) (simp only: if_False)
qed

lemma from_utf8_pair:
  "55296 \<le> u \<Longrightarrow> u \<le> 56319 \<Longrightarrow> 56320 \<le> v \<Longrightarrow> v \<le> 57343 \<Longrightarrow>
     from_utf8 (u # v # us) =
       utf8_bytes (65536 + (u - 55296) * 1024 + (v - 56320)) @ from_utf8 us"
  by simp

lemma from_utf8_units:
  assumes "is_scalar c"
  shows "from_utf8 (utf16_units c @ us) = utf8_bytes c @ from_utf8 us"
proof (cases "c < 65536")
  case True
  with assms have "\<not> (55296 \<le> c \<and> c \<le> 57343)" and "utf16_units c = [c]"
    by (simp_all add: is_scalar_def utf16_units_def)
  then show ?thesis
    by (simp add: from_utf8_single del: from_utf8.simps)
next
  case False
  define x hi lo where "x = c - 65536" and "hi = x div 1024" and "lo = x mod 1024"
  have x: "x = hi * 1024 + lo" and lo: "lo < 1024"
    by (simp_all add: hi_def lo_def)
  from assms False have "x < 1048576" and c: "c = 65536 + x"
    by (simp_all add: is_scalar_def x_def)
  with x lo have hi: "hi < 1024" by linarith
  from False have "utf16_units c = [55296 + hi, 56320 + lo]"
    by (simp add: utf16_units_def hi_def lo_def x_def)
  then have "from_utf8 (utf16_units c @ us) = from_utf8 ((55296 + hi) # (56320 + lo) # us)"
    by (simp del: from_utf8.simps)
  also have "\<dots> =
      utf8_bytes (65536 + (55296 + hi - 55296) * 1024 + (56320 + lo - 56320)) @ from_utf8 us"
    using hi lo by (intro from_utf8_pair) simp_all
  also have "65536 + (55296 + hi - 55296) * 1024 + (56320 + lo - 56320) = c"
    using x c by simp
  finally show ?thesis .
qed

lemma utf8_bytes_bound:
  assumes "is_scalar c" and "b \<in> set (utf8_bytes c)"
  shows "b < 256"
proof -
  from assms(1) have c: "c < 1114112" by (simp add: is_scalar_def)
  have m: "c mod 64 < 64" "c div 64 mod 64 < 64" "c div 4096 mod 64 < 64" by simp_all
  have "c < 2048 \<longrightarrow> c div 64 < 32" "c < 65536 \<longrightarrow> c div 4096 < 16" "c div 262144 < 5"
    using c by linarith+
  with m assms(2) show ?thesis
    by (auto simp: utf8_bytes_def split: if_splits)
qed

lemma utf8_bytes_not_empty: "utf8_bytes c \<noteq> []"
  by (simp add: utf8_bytes_def)

lemma utf8_decode_text:
  "\<forall>c\<in>set cps. is_scalar c \<Longrightarrow> utf8_decode (concat (map utf8_bytes cps)) = cps"
  by (induction cps) (simp_all add: utf8_decode_bytes del: utf8_decode.simps(2))

lemma from_utf8_text:
  "\<forall>c\<in>set cps. is_scalar c \<Longrightarrow>
     from_utf8 (concat (map utf16_units cps)) = concat (map utf8_bytes cps)"
  by (induction cps) (simp_all add: from_utf8_units del: from_utf8.simps(2))

lemma utf8_text_bound:
  "\<forall>c\<in>set cps. is_scalar c \<Longrightarrow> \<forall>b\<in>set (concat (map utf8_bytes cps)). b < 256"
  by (auto dest: utf8_bytes_bound)

section \<open>Facts about the poll loop and the handler\<close>

lemma poll_loop_timeout:
  "timeoutMs \<le> now w (Suc n) - s \<Longrightarrow> poll_loop w s n rd = Some (n, Inr rd)"
  by (subst poll_loop.simps) simp

lemma poll_loop_continue:
  "now w (Suc n) - s < timeoutMs \<Longrightarrow> submissions_get w n = Response d \<Longrightarrow>
     statusId_of d \<le> 2 \<Longrightarrow> poll_loop w s n rd = poll_loop w s (Suc n) d"
  by (subst poll_loop.simps) simp

lemma poll_loop_terminal:
  "now w (Suc n) - s < timeoutMs \<Longrightarrow> submissions_get w n = Response d \<Longrightarrow>
     2 < statusId_of d \<Longrightarrow> poll_loop w s n rd = Some (Suc n, Inr d)"
  by (subst poll_loop.simps) simp

lemma poll_loop_failed:
  "now w (Suc n) - s < timeoutMs \<Longrightarrow> submissions_get w n = Failed e \<Longrightarrow>
     poll_loop w s n rd = Some (Suc n, Inl e)"
  by (subst poll_loop.simps) simp

text \<open>
  As long as every answer is there and its status is at most 2 and the time is not up,
  the loop goes on: after \<open>m\<close> such polls it stands at poll \<open>m\<close> with the data of the
  last answer.
\<close>

lemma poll_loop_run:
  assumes "\<forall>k<m. now w (Suc k) - s < timeoutMs \<and>
             (\<exists>d. submissions_get w k = Response d \<and> statusId_of d \<le> 2)"
  shows "\<exists>snap. (m = 0 \<and> snap = rd \<or> 0 < m \<and> submissions_get w (m - 1) = Response snap) \<and>
           poll_loop w s 0 rd = poll_loop w s m snap"
  using assms
proof (induction m)
  case 0
  then show ?case by simp
next
  case (Suc m)
  then obtain snap where snap: "poll_loop w s 0 rd = poll_loop w s m snap"
    by auto
  from Suc.prems obtain d where d: "now w (Suc m) - s < timeoutMs"
      "submissions_get w m = Response d" "statusId_of d \<le> 2"
    by auto
  then have "poll_loop w s m snap = poll_loop w s (Suc m) d"
    by (rule poll_loop_continue)
  with snap d(2) show ?case by auto
qed

text \<open>
  The loop ends at the first poll that is answered with a status above 2, and it ends
  as soon as one loop test or one answer does not let it go on.
\<close>

lemma poll_loop_stops:
  assumes "\<forall>k<n. now w (Suc k) - s < timeoutMs \<and>
             (\<exists>d. submissions_get w k = Response d \<and> statusId_of d \<le> 2)"
    and "now w (Suc n) - s < timeoutMs" and "submissions_get w n = Response d"
    and "2 < statusId_of d"
  shows "poll_loop w s 0 rd = Some (Suc n, Inr d)"
proof -
  from poll_loop_run [OF assms(1), of rd]
  obtain snap where "poll_loop w s 0 rd = poll_loop w s n snap"
    by blast
  also have "\<dots> = Some (Suc n, Inr d)"
    using assms(2-4) by (rule poll_loop_terminal)
  finally show ?thesis .
qed

lemma poll_loop_ends:
  assumes "\<not> (now w (Suc k) - s < timeoutMs \<and>
             (\<exists>d. submissions_get w k = Response d \<and> statusId_of d \<le> 2))"
  shows "\<exists>y. poll_loop w s 0 rd = Some y"
proof -
  let ?goes = "\<lambda>k. now w (Suc k) - s < timeoutMs \<and>
                 (\<exists>d. submissions_get w k = Response d \<and> statusId_of d \<le> 2)"
  define j where "j = (LEAST k. \<not> ?goes k)"
  have stop: "\<not> ?goes j"
    unfolding j_def using assms by (rule LeastI [where P = "\<lambda>k. \<not> ?goes k"])
  have "\<forall>i<j. ?goes i"
    unfolding j_def using not_less_Least [where P = "\<lambda>k. \<not> ?goes k"] by blast
  from poll_loop_run [OF this, of rd]
  obtain snap where run: "poll_loop w s 0 rd = poll_loop w s j snap"
    by blast
  show ?thesis
  proof (cases "now w (Suc j) - s < timeoutMs")
    case False
    then have "poll_loop w s j snap = Some (j, Inr snap)"
      by (intro poll_loop_timeout) simp
    with run show ?thesis by simp
  next
    case True
    show ?thesis
    proof (cases "submissions_get w j")
      case (Failed e)
      with True have "poll_loop w s j snap = Some (Suc j, Inl e)"
        by (rule poll_loop_failed)
      with run show ?thesis by simp
    next
      case (Response d)
      with stop True have "2 < statusId_of d" by simp
      with True Response have "poll_loop w s j snap = Some (Suc j, Inr d)"
        by (rule poll_loop_terminal)
      with run show ?thesis by simp
    qed
  qed
qed

text \<open>
  What a loop that has ended says about the polls it made: every poll but the last was
  answered with a status of at most 2, and the outcome is the answer to the last poll.
\<close>

lemma poll_loop_sound_aux:
  assumes "poll_loop w s n rd = Some y"
  shows "n \<le> fst y \<and>
    (\<forall>k. n \<le> k \<longrightarrow> Suc k < fst y \<longrightarrow>
       (\<exists>d. submissions_get w k = Response d \<and> statusId_of d \<le> 2)) \<and>
    (n < fst y \<longrightarrow> (case snd y of Inl e \<Rightarrow> submissions_get w (fst y - 1) = Failed e
                          | Inr d \<Rightarrow> submissions_get w (fst y - 1) = Response d)) \<and>
    (n = fst y \<longrightarrow> snd y = Inr rd)"
proof -
  let ?P = "\<lambda>(w::world) (s::int) (n::nat) (rd::result_data option)
              (y::nat \<times> (jstring + result_data option)).
    n \<le> fst y \<and>
    (\<forall>k. n \<le> k \<longrightarrow> Suc k < fst y \<longrightarrow>
       (\<exists>d. submissions_get w k = Response d \<and> statusId_of d \<le> 2)) \<and>
    (n < fst y \<longrightarrow> (case snd y of Inl e \<Rightarrow> submissions_get w (fst y - 1) = Failed e
                          | Inr d \<Rightarrow> submissions_get w (fst y - 1) = Response d)) \<and>
    (n = fst y \<longrightarrow> snd y = Inr rd)"
  have "?P w s n rd y"
  proof (rule poll_loop.raw_induct [where P = ?P, OF _ assms])
    fix f w s n rd y
    assume ih: "\<And>w s n rd y. f w s n rd = Some y \<Longrightarrow> ?P w s n rd y"
      and eq: "(if now w (Suc n) - s < timeoutMs then
                 (case submissions_get w n of
                    Failed err \<Rightarrow> Some (Suc n, Inl err)
                  | Response d \<Rightarrow>
                      if statusId_of d > 2 then Some (Suc n, Inr d) else f w s (Suc n) d)
               else Some (n, Inr rd)) = Some y"
    show "?P w s n rd y"
    proof (cases "now w (Suc n) - s < timeoutMs")
      case False
      with eq show ?thesis by auto
    next
      case True
      note time = this
      show ?thesis
      proof (cases "submissions_get w n")
        case (Failed e)
        with eq time show ?thesis by auto
      next
        case (Response d)
        show ?thesis
        proof (cases "2 < statusId_of d")
          case True
          with eq time Response show ?thesis by auto
        next
          case False
          with eq time Response have rec: "f w s (Suc n) d = Some y"
            by simp
          note step = ih [OF rec]
          have "\<exists>d. submissions_get w k = Response d \<and> statusId_of d \<le> 2"
            if "n \<le> k" "Suc k < fst y" for k
          proof (cases "k = n")
            case True
            with Response False show ?thesis by simp
          next
            case False
            with that step show ?thesis by simp
          qed
          moreover have "n < fst y" using step by simp
          moreover have "case snd y of Inl e \<Rightarrow> submissions_get w (fst y - 1) = Failed e
                            | Inr d \<Rightarrow> submissions_get w (fst y - 1) = Response d"
          proof (cases "Suc n = fst y")
            case True
            with step have "snd y = Inr d" by simp
            with True [symmetric] Response show ?thesis by simp
          next
            case False
            with step show ?thesis by simp
          qed
          ultimately show ?thesis by simp
        qed
      qed
    qed
  qed
  then show ?thesis .
qed

lemma poll_loop_sound:
  assumes "poll_loop w s n rd = Some (m, out)"
  shows "n \<le> m \<and>
    (\<forall>k. n \<le> k \<longrightarrow> Suc k < m \<longrightarrow>
       (\<exists>d. submissions_get w k = Response d \<and> statusId_of d \<le> 2)) \<and>
    (n < m \<longrightarrow> (case out of Inl e \<Rightarrow> submissions_get w (m - 1) = Failed e
                          | Inr d \<Rightarrow> submissions_get w (m - 1) = Response d)) \<and>
    (n = m \<longrightarrow> out = Inr rd)"
  using poll_loop_sound_aux [OF assms] by (cases out) simp_all

lemma DEFAULT_LANGUAGE_IDS_lookup:
  "(label, n) \<in> set DEFAULT_LANGUAGE_IDS \<Longrightarrow>
     get_property DEFAULT_LANGUAGE_IDS label = Number n \<and> n \<noteq> 0"
  by (auto simp: DEFAULT_LANGUAGE_IDS_def get_property_def lit_def)

text \<open>The upstream calls of a finished request: the resolver's, one submission, the polls.\<close>

lemma execute_calls:
  assumes "execute lc w body = Some (r, cs)"
    and "resolve_language lc w (or_empty (language body)) = (v, calls)"
  shows "cs = [] \<or> cs = calls \<or>
    (\<exists>t n. cs = calls @ PostSubmission (or_empty (code body)) v # replicate n (GetSubmission t))"
  using assms
  by (auto simp: execute_def respond_def Let_def split: if_splits http.splits prod.splits)

text \<open>A request that passes validation, resolution and submission goes on to the loop.\<close>

lemma execute_polls:
  assumes "code body = Some c" and "c \<noteq> []" and "language body = Some l" and "l \<noteq> []"
    and "resolve_language lc w l = (v, calls)" and "truthy v"
    and "submissions_post w c v = Response (Some t)" and "t \<noteq> []"
  shows "execute lc w body =
           map_option (respond t (calls @ [PostSubmission c v])) (poll_loop w (now w 0) 0 None)"
  using assms by (simp add: execute_def or_empty_def)

text \<open>
  A label that reads \<^verbatim>\<open>undefined\<close> at line 149 (no key of the table and no inherited
  member) goes to the catalog: the first matching record gives the id, and without a
  match the request is refused before anything is submitted.
\<close>

lemma catalog_fallback:
  assumes "get_property DEFAULT_LANGUAGE_IDS l = Undefined"
    and "languages w = Response (Array ls)"
  shows "resolve_language lc w l =
           (case List.find (matches lc l) ls of
              None \<Rightarrow> (Undefined, [GetLanguages])
            | Some found \<Rightarrow> (Number (lang_id found), [GetLanguages]))"
  using assms by (simp add: resolve_language_def split: option.split)

lemma catalog_without_match:
  assumes "get_property DEFAULT_LANGUAGE_IDS l = Undefined"
    and "languages w = Response (Array ls)" and "List.find (matches lc l) ls = None"
    and "code body = Some c" and "c \<noteq> []" and "language body = Some l" and "l \<noteq> []"
  shows "execute lc w body =
           Some ((400, Error (lit ''Unsupported language: '' @ l)), [GetLanguages])"
  using assms by (simp add: execute_def resolve_language_def or_empty_def)

text \<open>
  A job whose answers all carry a status of at most 2 is polled until the time is up, at
  the loop test after the \<open>n\<close>-th poll; the data of the last poll decides the answer.
\<close>

lemma execute_timeout:
  assumes "code body = Some c" and "c \<noteq> []" and "language body = Some l" and "l \<noteq> []"
    and "resolve_language lc w l = (v, calls)" and "truthy v"
    and "submissions_post w c v = Response (Some t)" and "t \<noteq> []"
    and "\<forall>k<n. now w (Suc k) - now w 0 < timeoutMs \<and>
           (\<exists>d. submissions_get w k = Response d \<and> statusId_of d \<le> 2)"
    and "timeoutMs \<le> now w (Suc n) - now w 0"
  shows "\<exists>snapshot.
    (n = 0 \<and> snapshot = None \<or> 0 < n \<and> submissions_get w (n - 1) = Response snapshot) \<and>
    execute lc w body =
      Some ((case snapshot of
               None \<Rightarrow> (500, Error (lit ''No result received from Judge0''))
             | Some resultData \<Rightarrow>
                 (200, Execution (display_output resultData) (statusDesc_of resultData) t
                         resultData)),
            calls @ PostSubmission c v # replicate n (GetSubmission t))"
proof -
  from poll_loop_run [OF assms(9), of None]
  obtain snap where snap: "n = 0 \<and> snap = None \<or> 0 < n \<and> submissions_get w (n - 1) = Response snap"
    and run: "poll_loop w (now w 0) 0 None = poll_loop w (now w 0) n snap"
    by blast
  from assms(10) have "poll_loop w (now w 0) n snap = Some (n, Inr snap)"
    by (rule poll_loop_timeout)
  with run execute_polls [OF assms(1-8)]
  have "execute lc w body = Some (respond t (calls @ [PostSubmission c v]) (n, Inr snap))"
    by simp
  then have "execute lc w body =
      Some ((case snap of
               None \<Rightarrow> (500, Error (lit ''No result received from Judge0''))
             | Some resultData \<Rightarrow>
                 (200, Execution (display_output resultData) (statusDesc_of resultData) t
                         resultData)),
            calls @ PostSubmission c v # replicate n (GetSubmission t))"
    by (cases snap) (simp_all add: respond_def)
  with snap show ?thesis by blast
qed

lemmas decoder_defs =
  safeDecode_def isLikelyBase64_def trim_def isWhiteSpace_def b64_regex_test_def
  b64_regex_char_def lit_def

section \<open>Facts about the sample inputs\<close>

lemma display_output_accepted: "display_output accepted = [49, 10]"
  by (simp add: display_output_def accepted_def decoder_defs toString_utf8_def from_base64_def
      List.map_filter_def unbase64_def utf16_units_def utf8_bytes_def strip_padding_def
      toString_base64_def b64_char_def)

lemma display_output_queued: "display_output queued = lit ''No output''"
  by (simp add: display_output_def queued_def safeDecode_def)

lemma sample_resolve_python:
  "resolve_language lc (sample_world step answers) (lit ''python'') = (Number 71, [])"
  by (simp add: resolve_language_def get_property_def DEFAULT_LANGUAGE_IDS_def lit_def)

lemma sample_world_simps [simp]:
  "languages (sample_world step answers) = Response (Array [])"
  "submissions_post (sample_world step answers) c v = Response (Some (lit ''tok''))"
  "submissions_get (sample_world step answers) = answers"
  "now (sample_world step answers) n = step * int n"
  by (simp_all add: sample_world_def)

lemma sample_request_simps [simp]:
  "code (sample_request l) = Some (lit ''print(1)'')"
  "language (sample_request l) = Some (lit l)"
  by (simp_all add: sample_request_def)

lemma lit_not_empty [simp]: "lit (x # xs) \<noteq> []"
  by (simp add: lit_def)

lemma sample_status [simp]:
  "statusId_of (Some queued) = 1" "statusId_of (Some accepted) = 3"
  "statusId_of (Some statusless) = 0" "statusId_of None = 0"
  "statusDesc_of queued = lit ''In Queue''" "statusDesc_of accepted = lit ''Accepted''"
  "statusDesc_of statusless = lit ''Unknown''"
  by (simp_all add: statusId_of_def statusDesc_of_def queued_def accepted_def statusless_def)

lemma display_output_statusless: "display_output statusless = lit ''No output''"
  by (simp add: display_output_def statusless_def safeDecode_def)

lemma less_two: "k < (2::nat) \<longleftrightarrow> k = 0 \<or> k = 1"
  by auto

text \<open>The byte FF through the steps of \<^verbatim>\<open>isLikelyBase64\<close>.\<close>

lemma byte_255_base64: "toString_base64 [255] = lit ''/w==''"
  by (simp add: toString_base64_def b64_char_def lit_def numeral_2_eq_2)

lemma byte_255_trim: "trim (lit ''/w=='') = lit ''/w==''"
  by (simp add: trim_def isWhiteSpace_def lit_def)

lemma byte_255_from_base64: "from_base64 (lit ''/w=='') = [255]"
  by (simp add: from_base64_def List.map_filter_def unbase64_def lit_def)

lemma byte_255_text: "toString_utf8 [255] = [65533]"
  by (simp add: toString_utf8_def utf16_units_def)

lemma replacement_base64: "toString_base64 [239, 191, 189] = lit ''77+9''"
  by (simp add: toString_base64_def b64_char_def lit_def)

lemma byte_255_differs: "strip_padding (lit ''77+9'') \<noteq> strip_padding (lit ''/w=='')"
  by (simp add: strip_padding_def lit_def)

text \<open>
  Code units above 255 in a base64 field: U+0141 is decoded as \<open>A\<close>, and a leading
  U+202F, which \<^verbatim>\<open>trim\<close> removes before the test of \<^verbatim>\<open>isLikelyBase64\<close>, is decoded as
  \<open>/\<close> at line 65.
\<close>

lemma from_base64_low_byte: "from_base64 [97, 71, 107, 321] = [104, 105, 0]"
  by (simp add: from_base64_def List.map_filter_def unbase64_def)

lemma narrow_space_trim: "trim (8239 # lit ''aGk='') = lit ''aGk=''"
  by (simp add: trim_def isWhiteSpace_def lit_def)

lemma narrow_space_from_base64: "from_base64 (8239 # lit ''aGk='') = [253, 161, 164]"
  by (simp add: from_base64_def List.map_filter_def unbase64_def lit_def)

lemma narrow_space_likely: "isLikelyBase64 (Some (8239 # lit ''aGk=''))"
proof -
  have "from_base64 (lit ''aGk='') = [104, 105]"
    by (simp add: from_base64_def List.map_filter_def unbase64_def lit_def)
  moreover have "toString_utf8 [104, 105] = [104, 105]"
    by (simp add: toString_utf8_def utf16_units_def)
  moreover have "toString_base64 (from_utf8 [104, 105]) = lit ''aGk=''"
    by (simp add: utf8_bytes_def toString_base64_def b64_char_def lit_def)
  moreover have "b64_regex_test (lit ''aGk='')"
    by (simp add: b64_regex_test_def b64_regex_char_def lit_def)
  ultimately show ?thesis
    by (simp add: isLikelyBase64_def narrow_space_trim Let_def del: from_utf8.simps)
qed

lemma narrow_space_decoded: "safeDecode (Some (8239 # lit ''aGk='')) = [65533, 65533, 65533]"
proof -
  have "toString_utf8 [253, 161, 164] = [65533, 65533, 65533]"
    by (simp add: toString_utf8_def utf16_units_def)
  then show ?thesis
    by (simp add: safeDecode_def narrow_space_likely narrow_space_from_base64)
qed

section \<open>Output precedence\<close>

text \<open>
  Claim C1. For every job result the display output is chosen by a fixed precedence:
  the decoded compile output if it is not empty after trimming; otherwise the decoded
  stderr if it is not empty after trimming; otherwise the decoded stdout if it is not
  empty after trimming; otherwise the literal string \<open>No output\<close>.
\<close>

theorem output_precedence:
  "display_output r =
     (if trim (safeDecode (compile_output r)) \<noteq> [] then safeDecode (compile_output r)
      else if trim (safeDecode (stderr r)) \<noteq> [] then safeDecode (stderr r)
      else if trim (safeDecode (stdout r)) \<noteq> [] then safeDecode (stdout r)
      else lit ''No output'')"
  by (auto simp: display_output_def Let_def)

theorem output_precedence_witness:
  "display_output
     \<lparr>status = None, compile_output = None, stderr = Some (lit ''boom!''),
      stdout = Some (lit ''hi?'')\<rparr> = lit ''boom!''"
  using output_precedence
    [of "\<lparr>status = None, compile_output = None, stderr = Some (lit ''boom!''),
           stdout = Some (lit ''hi?'')\<rparr>"]
  by (simp add: decoder_defs)

section \<open>The round trip through base64\<close>

text \<open>
  Claim C2, as stated: encoding any byte sequence as base64 and decoding it with the
  output decoder gives the bytes back. The decoder returns text: for the single byte FF,
  which is not UTF-8, the base64 is \<open>/w==\<close>, the test of \<^verbatim>\<open>isLikelyBase64\<close> fails (the
  byte decodes to U+FFFD, which encodes to other bytes), and the decoder returns the
  base64 text itself.
\<close>

theorem decoder_round_trip_counterexample:
  "safeDecode (Some (toString_base64 [255])) = lit ''/w=='' \<and>
   from_utf8 (safeDecode (Some (toString_base64 [255]))) \<noteq> [255]"
proof -
  have "safeDecode (Some (toString_base64 [255])) = lit ''/w==''"
    by (simp add: safeDecode_def isLikelyBase64_def Let_def utf8_bytes_def byte_255_base64
        byte_255_trim byte_255_from_base64 byte_255_text replacement_base64
        byte_255_differs)
  then show ?thesis
    by (simp add: lit_def utf8_bytes_def)
qed

text \<open>
  Claim C2, amended. For every byte sequence that is well-formed UTF-8, that is the
  UTF-8 encoding of a text (a sequence of Unicode scalar values), encoding it as base64
  and decoding with the output decoder gives that text, whose UTF-8 bytes are the byte
  sequence again.
\<close>

theorem decoder_round_trip_utf8:
  assumes "\<forall>c\<in>set cps. is_scalar c"
  shows "safeDecode (Some (toString_base64 (concat (map utf8_bytes cps)))) =
           concat (map utf16_units cps) \<and>
         from_utf8 (safeDecode (Some (toString_base64 (concat (map utf8_bytes cps))))) =
           concat (map utf8_bytes cps)"
proof -
  let ?b = "concat (map utf8_bytes cps)"
  let ?s = "toString_base64 ?b"
  let ?t = "concat (map utf16_units cps)"
  have bytes: "\<forall>b\<in>set ?b. b < 256"
    using assms by (rule utf8_text_bound)
  have trim: "trim ?s = ?s"
    by (rule trim_no_space) (simp add: toString_base64_chars)
  have decoded: "from_base64 ?s = ?b"
    using bytes by (rule from_base64_toString_base64)
  have as_text: "toString_utf8 ?b = ?t"
    using assms by (simp add: toString_utf8_def utf8_decode_text)
  have again: "from_utf8 ?t = ?b"
    using assms by (rule from_utf8_text)
  have "safeDecode (Some ?s) = ?t"
  proof (cases "cps = []")
    case True
    then show ?thesis
      by (simp add: safeDecode_def isLikelyBase64_def toString_base64_def b64_regex_test_def)
  next
    case False
    then have "?b \<noteq> []"
      by (cases cps) (simp_all add: utf8_bytes_not_empty)
    then have "b64_regex_test ?s"
      by (simp add: b64_regex_test_def toString_base64_Nil_iff list_all_iff
          toString_base64_chars)
    then have "isLikelyBase64 (Some ?s)"
      by (simp add: isLikelyBase64_def trim decoded as_text again)
    then show ?thesis
      by (simp add: safeDecode_def decoded as_text)
  qed
  with again show ?thesis by simp
qed

theorem decoder_round_trip_utf8_witness:
  "safeDecode (Some (lit ''aMOp'')) = [104, 233] \<and>
   from_utf8 (safeDecode (Some (lit ''aMOp''))) = [104, 195, 169]"
proof -
  have "toString_base64 (concat (map utf8_bytes [104, 233])) = lit ''aMOp''"
    by (simp add: utf8_bytes_def toString_base64_def b64_char_def lit_def)
  moreover have "concat (map utf16_units [104, 233]) = [104, 233]"
    by (simp add: utf16_units_def)
  moreover have "concat (map utf8_bytes [104, 233]) = [104, 195, 169]"
    by (simp add: utf8_bytes_def)
  moreover have "\<forall>c\<in>set [104, 233]. is_scalar c"
    by (simp add: is_scalar_def)
  ultimately show ?thesis
    using decoder_round_trip_utf8 [of "[104, 233]"] by simp
qed

section \<open>Plain text passes the decoder unchanged\<close>

text \<open>
  Claim C3. A string that contains a code unit outside the base64 alphabet (letters,
  digits, \<open>+\<close>, \<open>/\<close>, \<open>=\<close>, white space) comes back from the output decoder
  unchanged. The alphabet is the character class of the regular expression together
  with the white space that \<^verbatim>\<open>trim\<close> removes.
\<close>

theorem decoder_keeps_plain_text:
  assumes "u \<in> set s" and "\<not> b64_regex_char u" and "\<not> isWhiteSpace u"
  shows "safeDecode (Some s) = s"
proof -
  have "u \<in> set (trim s)"
    using assms(1,3) by (rule trim_keeps)
  with assms(2) have "\<not> list_all b64_regex_char (trim s)"
    by (auto simp: list_all_iff)
  then have "\<not> b64_regex_test (trim s)"
    by (simp add: b64_regex_test_def)
  then show ?thesis
    by (rule safeDecode_not_base64)
qed

theorem decoder_keeps_plain_text_witness:
  "safeDecode (Some (lit ''a b!'')) = lit ''a b!''"
  using decoder_keeps_plain_text [of 33 "lit ''a b!''"]
  by (simp add: lit_def b64_regex_char_def isWhiteSpace_def)

section \<open>Languages of the static table\<close>

text \<open>
  Claim C6. For every label of the static language table (python 71, javascript 63,
  java 62, c 50, c++ 54) the resolver returns the identifier of the table and makes no
  call to the language catalog; a request for such a label, whatever its outcome, never
  asks for the catalog and submits with the identifier of the table.
\<close>

theorem static_table_resolution:
  assumes "(label, n) \<in> set DEFAULT_LANGUAGE_IDS"
  shows "resolve_language lc w label = (Number n, []) \<and>
    (\<forall>body r cs. language body = Some label \<longrightarrow> execute lc w body = Some (r, cs) \<longrightarrow>
       GetLanguages \<notin> set cs \<and> (\<forall>c v. PostSubmission c v \<in> set cs \<longrightarrow> v = Number n))"
proof -
  have res: "resolve_language lc w label = (Number n, [])"
    using DEFAULT_LANGUAGE_IDS_lookup [OF assms] by (simp add: resolve_language_def)
  have "GetLanguages \<notin> set cs \<and> (\<forall>c v. PostSubmission c v \<in> set cs \<longrightarrow> v = Number n)"
    if "language body = Some label" and "execute lc w body = Some (r, cs)" for body r cs
    using execute_calls [OF that(2), of "Number n" "[]"] res that(1)
    by (auto simp: or_empty_def)
  with res show ?thesis by blast
qed

theorem static_table_resolution_witness:
  "resolve_language ascii_lower (sample_world 800 (\<lambda>n. Response (Some queued)))
     (lit ''python'') = (Number 71, [])"
  using static_table_resolution
    [of "lit ''python''" 71 ascii_lower "sample_world 800 (\<lambda>n. Response (Some queued))"]
  by (simp add: DEFAULT_LANGUAGE_IDS_def)

section \<open>A label that names an inherited member\<close>

text \<open>
  Claim C7. For every label absent from the static table the resolver queries the
  catalog and returns the id of the first record whose name or slug contains the
  lowercased label; if none matches, the request fails with status 400 and nothing is
  submitted. The code misses this for the label \<open>constructor\<close>: it is not a key of
  the table, yet the property read yields the inherited member, the catalog is not
  queried, and the submission is made; when the judge rejects it the answer is 500.
\<close>

theorem inherited_label_skips_catalog:
  "map_of DEFAULT_LANGUAGE_IDS (lit ''constructor'') = None \<and>
   resolve_language lc w (lit ''constructor'') = (Inherited, []) \<and>
   execute lc (w\<lparr>languages := Response (Array []), submissions_post := \<lambda>c v. Failed e\<rparr>)
      \<lparr>code = Some (lit ''x''), language = Some (lit ''constructor'')\<rparr> =
     Some ((500, ErrorDetails (lit ''Execution failed'') e),
           [PostSubmission (lit ''x'') Inherited])"
  by (simp add: execute_def resolve_language_def or_empty_def get_property_def
      DEFAULT_LANGUAGE_IDS_def object_prototype_keys_def lit_def)

section \<open>A failing catalog\<close>

text \<open>
  Claim C8. A network failure of the catalog query is not fatal and is treated as
  "no match": the request fails with the same 400 "Unsupported language" answer that
  an empty catalog gives, not with a 500.
\<close>

theorem catalog_failure_is_unsupported:
  assumes "\<not> truthy (get_property DEFAULT_LANGUAGE_IDS l)"
    and "languages w = Failed err"
    and "code body = Some c" and "c \<noteq> []" and "language body = Some l" and "l \<noteq> []"
  shows "execute lc w body =
           Some ((400, Error (lit ''Unsupported language: '' @ l)), [GetLanguages]) \<and>
         execute lc w body = execute lc (w\<lparr>languages := Response (Array [])\<rparr>) body"
  using assms by (simp add: execute_def resolve_language_def or_empty_def)

theorem catalog_failure_is_unsupported_witness:
  "execute ascii_lower
     ((sample_world 800 (\<lambda>n. Response (Some queued)))\<lparr>languages := Failed (lit ''ECONNRESET'')\<rparr>)
     (sample_request ''ruby'') =
   Some ((400, Error (lit ''Unsupported language: '' @ lit ''ruby'')), [GetLanguages])"
  using catalog_failure_is_unsupported
    [of "lit ''ruby''"
        "(sample_world 800 (\<lambda>n. Response (Some queued)))\<lparr>languages := Failed (lit ''ECONNRESET'')\<rparr>"
        "lit ''ECONNRESET''" "sample_request ''ruby''" "lit ''print(1)''" ascii_lower]
  by (simp add: get_property_def DEFAULT_LANGUAGE_IDS_def object_prototype_keys_def lit_def
      sample_request_def)

section \<open>Requests without code or language\<close>

text \<open>
  Claim C9. A request to \<^verbatim>\<open>/explain\<close>, \<^verbatim>\<open>/improve\<close> or \<^verbatim>\<open>/execute\<close> whose body lacks the
  code or the language is answered with status 400, and no upstream call is made.
\<close>

theorem missing_fields_rejected:
  assumes "code body = None \<or> language body = None"
  shows "explain g body = ((400, Error (lit ''Code and language required'')), []) \<and>
         improve g body = ((400, Error (lit ''Code and language required'')), []) \<and>
         execute lc w body = Some ((400, Error (lit ''Code and language required'')), [])"
  using assms by (auto simp: explain_def improve_def execute_def or_empty_def)

theorem missing_fields_rejected_witness:
  "explain (\<lambda>p. Response (Some p)) \<lparr>code = Some (lit ''x''), language = None\<rparr> =
     ((400, Error (lit ''Code and language required'')), []) \<and>
   improve (\<lambda>p. Response (Some p)) \<lparr>code = Some (lit ''x''), language = None\<rparr> =
     ((400, Error (lit ''Code and language required'')), []) \<and>
   execute ascii_lower (sample_world 800 (\<lambda>n. Response (Some queued)))
     \<lparr>code = Some (lit ''x''), language = None\<rparr> =
     Some ((400, Error (lit ''Code and language required'')), [])"
  using missing_fields_rejected
    [of "\<lparr>code = Some (lit ''x''), language = None\<rparr>" "\<lambda>p. Response (Some p)" ascii_lower
        "sample_world 800 (\<lambda>n. Response (Some queued))"]
  by simp

section \<open>Polling stops at a terminal status\<close>

text \<open>
  Claim C4. The job is polled again only while the status last seen is at most 2, and
  polling stops as soon as a poll is answered with a status of 3 or more. The theorem
  says, in this order: a loop that has ended made every poll but the last after a status
  of at most 2, and an answer of 3 or more was its last poll and is its result; a loop
  that never ends saw a status of at most 2 at every poll; whenever the polls before
  poll \<open>n\<close> are answered with a status of at most 2 and poll \<open>n\<close> is answered with
  a status of 3 or more, all within the time, the loop ends there, after exactly
  \<open>Suc n\<close> status requests, and the handler returns that answer after one submission
  and those status requests; in particular, when the second poll is the first to be
  answered with a terminal status (3), the handler makes exactly one submission and two
  status requests and returns that terminal result.
\<close>

theorem polling_stops_at_terminal_status:
  "(\<forall>m out. poll_loop w (now w 0) 0 None = Some (m, out) \<longrightarrow>
      (\<forall>k. Suc k < m \<longrightarrow> (\<exists>d. submissions_get w k = Response d \<and> statusId_of d \<le> 2)) \<and>
      (\<forall>k d. k < m \<longrightarrow> submissions_get w k = Response d \<longrightarrow> 3 \<le> statusId_of d \<longrightarrow>
         Suc k = m \<and> out = Inr d)) \<and>
   (poll_loop w (now w 0) 0 None = None \<longrightarrow>
      (\<forall>k. now w (Suc k) - now w 0 < timeoutMs \<and>
         (\<exists>d. submissions_get w k = Response d \<and> statusId_of d \<le> 2))) \<and>
   ((\<forall>k<n. now w (Suc k) - now w 0 < timeoutMs \<and>
        (\<exists>d. submissions_get w k = Response d \<and> statusId_of d \<le> 2)) \<and>
    now w (Suc n) - now w 0 < timeoutMs \<and>
    submissions_get w n = Response d \<and> 3 \<le> statusId_of d \<longrightarrow>
    poll_loop w (now w 0) 0 None = Some (Suc n, Inr d) \<and>
    (code body = Some c \<and> c \<noteq> [] \<and> language body = Some l \<and> l \<noteq> [] \<and>
     resolve_language lc w l = (v, calls) \<and> truthy v \<and>
     submissions_post w c v = Response (Some t) \<and> t \<noteq> [] \<longrightarrow>
     (\<exists>resultData. d = Some resultData \<and>
        execute lc w body =
          Some ((200, Execution (display_output resultData) (statusDesc_of resultData) t
                        resultData),
                calls @ PostSubmission c v # replicate (Suc n) (GetSubmission t))))) \<and>
   (code body = Some c \<and> c \<noteq> [] \<and> language body = Some l \<and> l \<noteq> [] \<and>
    resolve_language lc w l = (v, calls) \<and> truthy v \<and>
    submissions_post w c v = Response (Some t) \<and> t \<noteq> [] \<and>
    now w 1 - now w 0 < timeoutMs \<and> now w 2 - now w 0 < timeoutMs \<and>
    submissions_get w 0 = Response d0 \<and> statusId_of d0 \<le> 2 \<and>
    submissions_get w 1 = Response (Some r) \<and> statusId_of (Some r) = 3 \<longrightarrow>
    execute lc w body =
      Some ((200, Execution (display_output r) (statusDesc_of r) t r),
            calls @ [PostSubmission c v, GetSubmission t, GetSubmission t]))"
proof (intro conjI allI impI)
  fix m out k
  assume ended: "poll_loop w (now w 0) 0 None = Some (m, out)" and "Suc k < m"
  with poll_loop_sound [OF ended]
  show "\<exists>d. submissions_get w k = Response d \<and> statusId_of d \<le> 2"
    by simp
next
  fix m out k d
  assume ended: "poll_loop w (now w 0) 0 None = Some (m, out)" and k: "k < m"
    and d: "submissions_get w k = Response d" "3 \<le> statusId_of d"
  note sound = poll_loop_sound [OF ended]
  show "Suc k = m"
  proof (rule ccontr)
    assume "Suc k \<noteq> m"
    with k have "Suc k < m" by simp
    with sound d show False by auto
  qed
  with sound d(1) show "out = Inr d"
    by (cases out) auto
next
  fix k
  assume never: "poll_loop w (now w 0) 0 None = None"
  show "now w (Suc k) - now w 0 < timeoutMs"
  proof (rule ccontr)
    assume "\<not> now w (Suc k) - now w 0 < timeoutMs"
    then have "\<not> (now w (Suc k) - now w 0 < timeoutMs \<and>
             (\<exists>d. submissions_get w k = Response d \<and> statusId_of d \<le> 2))"
      by simp
    from poll_loop_ends [OF this, of None] never show False by simp
  qed
next
  fix k
  assume never: "poll_loop w (now w 0) 0 None = None"
  show "\<exists>d. submissions_get w k = Response d \<and> statusId_of d \<le> 2"
  proof (rule ccontr)
    assume "\<not> (\<exists>d. submissions_get w k = Response d \<and> statusId_of d \<le> 2)"
    then have "\<not> (now w (Suc k) - now w 0 < timeoutMs \<and>
             (\<exists>d. submissions_get w k = Response d \<and> statusId_of d \<le> 2))"
      by simp
    from poll_loop_ends [OF this, of None] never show False by simp
  qed
next
  assume h: "(\<forall>k<n. now w (Suc k) - now w 0 < timeoutMs \<and>
        (\<exists>d. submissions_get w k = Response d \<and> statusId_of d \<le> 2)) \<and>
    now w (Suc n) - now w 0 < timeoutMs \<and>
    submissions_get w n = Response d \<and> 3 \<le> statusId_of d"
  then have run: "\<forall>k<n. now w (Suc k) - now w 0 < timeoutMs \<and>
        (\<exists>d. submissions_get w k = Response d \<and> statusId_of d \<le> 2)"
    and last: "now w (Suc n) - now w 0 < timeoutMs" "submissions_get w n = Response d"
      "2 < statusId_of d"
    by simp_all
  show "poll_loop w (now w 0) 0 None = Some (Suc n, Inr d)"
    using run last by (rule poll_loop_stops)
next
  assume h: "(\<forall>k<n. now w (Suc k) - now w 0 < timeoutMs \<and>
        (\<exists>d. submissions_get w k = Response d \<and> statusId_of d \<le> 2)) \<and>
    now w (Suc n) - now w 0 < timeoutMs \<and>
    submissions_get w n = Response d \<and> 3 \<le> statusId_of d"
    and s: "code body = Some c \<and> c \<noteq> [] \<and> language body = Some l \<and> l \<noteq> [] \<and>
     resolve_language lc w l = (v, calls) \<and> truthy v \<and>
     submissions_post w c v = Response (Some t) \<and> t \<noteq> []"
  from h have run: "\<forall>k<n. now w (Suc k) - now w 0 < timeoutMs \<and>
        (\<exists>d. submissions_get w k = Response d \<and> statusId_of d \<le> 2)"
    and last: "now w (Suc n) - now w 0 < timeoutMs" "submissions_get w n = Response d"
      "2 < statusId_of d"
    by simp_all
  from s have sub: "code body = Some c" "c \<noteq> []" "language body = Some l" "l \<noteq> []"
      "resolve_language lc w l = (v, calls)" "truthy v"
      "submissions_post w c v = Response (Some t)" "t \<noteq> []"
    by simp_all
  from last(3) obtain resultData where d: "d = Some resultData"
    by (cases d) (simp_all add: statusId_of_def)
  have "poll_loop w (now w 0) 0 None = Some (Suc n, Inr d)"
    using run last by (rule poll_loop_stops)
  with execute_polls [OF sub] d
  have "execute lc w body =
          Some ((200, Execution (display_output resultData) (statusDesc_of resultData) t
                        resultData),
                calls @ PostSubmission c v # replicate (Suc n) (GetSubmission t))"
    by (simp add: respond_def)
  with d show "\<exists>resultData. d = Some resultData \<and>
        execute lc w body =
          Some ((200, Execution (display_output resultData) (statusDesc_of resultData) t
                        resultData),
                calls @ PostSubmission c v # replicate (Suc n) (GetSubmission t))"
    by simp
next
  assume h: "code body = Some c \<and> c \<noteq> [] \<and> language body = Some l \<and> l \<noteq> [] \<and>
    resolve_language lc w l = (v, calls) \<and> truthy v \<and>
    submissions_post w c v = Response (Some t) \<and> t \<noteq> [] \<and>
    now w 1 - now w 0 < timeoutMs \<and> now w 2 - now w 0 < timeoutMs \<and>
    submissions_get w 0 = Response d0 \<and> statusId_of d0 \<le> 2 \<and>
    submissions_get w 1 = Response (Some r) \<and> statusId_of (Some r) = 3"
  then have sub: "code body = Some c" "c \<noteq> []" "language body = Some l" "l \<noteq> []"
      "resolve_language lc w l = (v, calls)" "truthy v"
      "submissions_post w c v = Response (Some t)" "t \<noteq> []"
    and first: "now w (Suc 0) - now w 0 < timeoutMs" "submissions_get w 0 = Response d0"
      "statusId_of d0 \<le> 2"
    and second: "now w (Suc (Suc 0)) - now w 0 < timeoutMs"
      "submissions_get w (Suc 0) = Response (Some r)" "2 < statusId_of (Some r)"
    by (simp_all add: numeral_2_eq_2)
  have "poll_loop w (now w 0) 0 None = poll_loop w (now w 0) (Suc 0) d0"
    using first by (rule poll_loop_continue)
  also have "\<dots> = Some (Suc (Suc 0), Inr (Some r))"
    using second by (rule poll_loop_terminal)
  finally have "poll_loop w (now w 0) 0 None = Some (Suc (Suc 0), Inr (Some r))" .
  with execute_polls [OF sub]
  show "execute lc w body =
      Some ((200, Execution (display_output r) (statusDesc_of r) t r),
            calls @ [PostSubmission c v, GetSubmission t, GetSubmission t])"
    by (simp add: respond_def)
qed

theorem polling_stops_at_terminal_status_witness:
  "execute ascii_lower
     (sample_world 800 (\<lambda>n. if n = 0 then Response (Some queued) else Response (Some accepted)))
     (sample_request ''python'') =
   Some ((200, Execution [49, 10] (lit ''Accepted'') (lit ''tok'') accepted),
         [PostSubmission (lit ''print(1)'') (Number 71), GetSubmission (lit ''tok''),
          GetSubmission (lit ''tok'')]) \<and>
   poll_loop
     (sample_world 800 (\<lambda>n. if n = 0 then Response (Some queued) else Response (Some accepted)))
     0 0 None = Some (2, Inr (Some accepted))"
proof -
  let ?w = "sample_world 800
    (\<lambda>n. if n = 0 then Response (Some queued) else Response (Some accepted))"
  let ?b = "sample_request ''python''"
  have "code ?b = Some (lit ''print(1)'') \<and> lit ''print(1)'' \<noteq> [] \<and>
    language ?b = Some (lit ''python'') \<and> lit ''python'' \<noteq> [] \<and>
    resolve_language ascii_lower ?w (lit ''python'') = (Number 71, []) \<and> truthy (Number 71) \<and>
    submissions_post ?w (lit ''print(1)'') (Number 71) = Response (Some (lit ''tok'')) \<and>
    lit ''tok'' \<noteq> [] \<and>
    now ?w 1 - now ?w 0 < timeoutMs \<and> now ?w 2 - now ?w 0 < timeoutMs \<and>
    submissions_get ?w 0 = Response (Some queued) \<and> statusId_of (Some queued) \<le> 2 \<and>
    submissions_get ?w 1 = Response (Some accepted) \<and> statusId_of (Some accepted) = 3"
    by (simp add: sample_resolve_python timeoutMs_def)
  then have "execute ascii_lower ?w ?b =
      Some ((200, Execution (display_output accepted) (statusDesc_of accepted) (lit ''tok'')
               accepted),
            [] @ [PostSubmission (lit ''print(1)'') (Number 71), GetSubmission (lit ''tok''),
                  GetSubmission (lit ''tok'')])"
    by (rule polling_stops_at_terminal_status
          [THEN conjunct2, THEN conjunct2, THEN conjunct2, rule_format])
  moreover have "(\<forall>k<Suc 0. now ?w (Suc k) - now ?w 0 < timeoutMs \<and>
        (\<exists>d. submissions_get ?w k = Response d \<and> statusId_of d \<le> 2)) \<and>
    now ?w (Suc (Suc 0)) - now ?w 0 < timeoutMs \<and>
    submissions_get ?w (Suc 0) = Response (Some accepted) \<and> 3 \<le> statusId_of (Some accepted)"
    by (simp add: timeoutMs_def)
  then have "poll_loop ?w (now ?w 0) 0 None = Some (Suc (Suc 0), Inr (Some accepted))"
    by (rule polling_stops_at_terminal_status
          [THEN conjunct2, THEN conjunct2, THEN conjunct1, rule_format, THEN conjunct1])
  ultimately show ?thesis
    by (simp add: display_output_accepted numeral_2_eq_2)
qed

section \<open>The timeout\<close>

text \<open>
  Claim C5, as stated: a job that never reaches a status above 2 within the 20000 ms
  gets the last polled snapshot as a success response, and the 500 "no result" error
  is given only when no poll was ever answered. The handler keeps the data of the last
  answer only and tests it at line 231, so an answer with an empty body after one with
  data gives the error: here the first poll is answered with a queued job, the second
  with an empty body, and the time is up at the third loop test.
\<close>

theorem empty_last_answer_counterexample:
  "submissions_get
     (sample_world 9000 (\<lambda>n. if n = 0 then Response (Some queued) else Response None)) 0 =
     Response (Some queued) \<and>
   execute ascii_lower
     (sample_world 9000 (\<lambda>n. if n = 0 then Response (Some queued) else Response None))
     (sample_request ''python'') =
   Some ((500, Error (lit ''No result received from Judge0'')),
         [PostSubmission (lit ''print(1)'') (Number 71), GetSubmission (lit ''tok''),
          GetSubmission (lit ''tok'')])"
proof -
  let ?w = "sample_world 9000 (\<lambda>n. if n = 0 then Response (Some queued) else Response None)"
  have "\<forall>k<2. now ?w (Suc k) - now ?w 0 < timeoutMs \<and>
           (\<exists>d. submissions_get ?w k = Response d \<and> statusId_of d \<le> 2)"
    by (simp add: less_two timeoutMs_def)
  moreover have "timeoutMs \<le> now ?w (Suc 2) - now ?w 0"
    by (simp add: timeoutMs_def)
  ultimately show ?thesis
    using execute_timeout
      [of "sample_request ''python''" "lit ''print(1)''" "lit ''python''" ascii_lower ?w
          "Number 71" "[]" "lit ''tok''" 2]
    by (simp add: sample_resolve_python numeral_2_eq_2)
qed

text \<open>
  Claim C5, amended. Let every poll of the job be answered with a status of at most 2,
  and let the time be up at the loop test after the \<open>n\<close>-th poll. Then the handler
  returns after exactly \<open>n\<close> status requests: with a success response that carries
  the data of the last poll when that data is not empty, and with the 500 "no result"
  error exactly when the last-seen data is empty, that is when no poll was made or the
  last poll was answered with an empty body.
\<close>

theorem timeout_returns_last_snapshot:
  assumes "code body = Some c" and "c \<noteq> []" and "language body = Some l" and "l \<noteq> []"
    and "resolve_language lc w l = (v, calls)" and "truthy v"
    and "submissions_post w c v = Response (Some t)" and "t \<noteq> []"
    and "\<forall>k<n. now w (Suc k) - now w 0 < timeoutMs \<and>
           (\<exists>d. submissions_get w k = Response d \<and> statusId_of d \<le> 2)"
    and "timeoutMs \<le> now w (Suc n) - now w 0"
  shows "\<exists>snapshot.
    (n = 0 \<and> snapshot = None \<or> 0 < n \<and> submissions_get w (n - 1) = Response snapshot) \<and>
    execute lc w body =
      Some ((case snapshot of
               None \<Rightarrow> (500, Error (lit ''No result received from Judge0''))
             | Some resultData \<Rightarrow>
                 (200, Execution (display_output resultData) (statusDesc_of resultData) t
                         resultData)),
            calls @ PostSubmission c v # replicate n (GetSubmission t))"
  using assms by (rule execute_timeout)

theorem timeout_returns_last_snapshot_witness:
  "execute ascii_lower (sample_world 9000 (\<lambda>n. Response (Some queued)))
     (sample_request ''python'') =
   Some ((200, Execution (lit ''No output'') (lit ''In Queue'') (lit ''tok'') queued),
         [PostSubmission (lit ''print(1)'') (Number 71), GetSubmission (lit ''tok''),
          GetSubmission (lit ''tok'')])"
proof -
  let ?w = "sample_world 9000 (\<lambda>n. Response (Some queued))"
  have "\<forall>k<2. now ?w (Suc k) - now ?w 0 < timeoutMs \<and>
           (\<exists>d. submissions_get ?w k = Response d \<and> statusId_of d \<le> 2)"
    by (simp add: less_two timeoutMs_def)
  moreover have "timeoutMs \<le> now ?w (Suc 2) - now ?w 0"
    by (simp add: timeoutMs_def)
  ultimately show ?thesis
    using timeout_returns_last_snapshot
      [of "sample_request ''python''" "lit ''print(1)''" "lit ''python''" ascii_lower ?w
          "Number 71" "[]" "lit ''tok''" 2]
    by (simp add: sample_resolve_python display_output_queued numeral_2_eq_2)
qed

section \<open>Answers without a status id\<close>

text \<open>
  Claim C10. A poll answer whose \<^verbatim>\<open>status.id\<close> is absent or \<^verbatim>\<open>null\<close> counts as status 0,
  which is not terminal: when every answer is of this kind the job is polled until the
  time is up, and the snapshot then returned has the status description \<open>Unknown\<close>
  when its status object is absent.
\<close>

theorem absent_status_id_keeps_polling:
  assumes "code body = Some c" and "c \<noteq> []" and "language body = Some l" and "l \<noteq> []"
    and "resolve_language lc w l = (v, calls)" and "truthy v"
    and "submissions_post w c v = Response (Some t)" and "t \<noteq> []"
    and "\<forall>k<n. now w (Suc k) - now w 0 < timeoutMs \<and>
           (\<exists>d. submissions_get w k = Response (Some d) \<and>
              (case status d of None \<Rightarrow> True | Some st \<Rightarrow> status_id st = None))"
    and "timeoutMs \<le> now w (Suc n) - now w 0"
    and "0 < n" and "submissions_get w (n - 1) = Response (Some r)"
  shows "(\<forall>k<n. \<exists>d. submissions_get w k = Response d \<and> statusId_of d = 0) \<and>
    execute lc w body =
      Some ((200, Execution (display_output r) (statusDesc_of r) t r),
            calls @ PostSubmission c v # replicate n (GetSubmission t)) \<and>
    (status r = None \<longrightarrow> statusDesc_of r = lit ''Unknown'')"
proof -
  have zero: "\<exists>d. submissions_get w k = Response d \<and> statusId_of d = 0" if "k < n" for k
  proof -
    from assms(9) that obtain d where "submissions_get w k = Response (Some d)"
      and "case status d of None \<Rightarrow> True | Some st \<Rightarrow> status_id st = None"
      by blast
    then show ?thesis
      by (auto simp: statusId_of_def split: option.splits)
  qed
  with assms(9) have "\<forall>k<n. now w (Suc k) - now w 0 < timeoutMs \<and>
           (\<exists>d. submissions_get w k = Response d \<and> statusId_of d \<le> 2)"
    by fastforce
  from execute_timeout [OF assms(1-8) this assms(10)] assms(11,12)
  have "execute lc w body =
      Some ((200, Execution (display_output r) (statusDesc_of r) t r),
            calls @ PostSubmission c v # replicate n (GetSubmission t))"
    by auto
  with zero show ?thesis
    by (simp add: statusDesc_of_def)
qed

theorem absent_status_id_keeps_polling_witness:
  "execute ascii_lower (sample_world 9000 (\<lambda>n. Response (Some statusless)))
     (sample_request ''python'') =
   Some ((200, Execution (lit ''No output'') (lit ''Unknown'') (lit ''tok'') statusless),
         [PostSubmission (lit ''print(1)'') (Number 71), GetSubmission (lit ''tok''),
          GetSubmission (lit ''tok'')])"
proof -
  let ?w = "sample_world 9000 (\<lambda>n. Response (Some statusless))"
  have "\<forall>k<2. now ?w (Suc k) - now ?w 0 < timeoutMs \<and>
           (\<exists>d. submissions_get ?w k = Response (Some d) \<and>
              (case status d of None \<Rightarrow> True | Some st \<Rightarrow> status_id st = None))"
    by (simp add: less_two timeoutMs_def statusless_def)
  moreover have "timeoutMs \<le> now ?w (Suc 2) - now ?w 0"
    by (simp add: timeoutMs_def)
  ultimately show ?thesis
    using absent_status_id_keeps_polling
      [of "sample_request ''python''" "lit ''print(1)''" "lit ''python''" ascii_lower ?w
          "Number 71" "[]" "lit ''tok''" 2 statusless]
    by (simp add: sample_resolve_python display_output_statusless numeral_2_eq_2)
qed

end
